theory Spec2Isabelle
  imports Complex_Main
begin

section \<open>Euler's method for dy/dx = ky (app.py)\<close>

text \<open>
  The program computes with Python floats, which are IEEE 754 binary64 numbers. The
  model keeps their rounding, their infinities and NaN, and the exceptions of the
  operations that raise. The two zeros are identified: the program never looks at the
  sign of a zero (a zero divisor raises whatever its sign).

  An operation of Python that can raise is a function into \<open>exn + 'a\<close>, with
  \<open>Inl\<close> for the exception.
\<close>

subsection \<open>Binary64 values and rounding\<close>

datatype pyfloat = Fin real | PInf | NInf | NaN

datatype exn = ZeroDivisionError | IndexError | OverflowError | ValueError

definition rhe :: "real \<Rightarrow> int" where
  \<comment> \<open>The nearest integer, a tie going to the even one.\<close>
  "rhe t =
     (let f = \<lfloor>t\<rfloor>
      in if t - of_int f < 1 / 2 then f
         else if 1 / 2 < t - of_int f then f + 1
         else if even f then f else f + 1)"

definition expo :: "real \<Rightarrow> int" where
  \<comment> \<open>The binary exponent of a value, not below that of the subnormal numbers.\<close>
  "expo x = (if x = 0 then - 1022 else max \<lfloor>log 2 \<bar>x\<bar>\<rfloor> (- 1022))"

definition ulp :: "real \<Rightarrow> real" where
  \<comment> \<open>The distance between neighbouring binary64 numbers at \<open>x\<close>: 53 bits of precision.\<close>
  "ulp x = 2 powr (of_int (expo x) - 52)"

definition nearest :: "real \<Rightarrow> real" where
  \<comment> \<open>The multiple of \<open>ulp x\<close> nearest to \<open>x\<close>, ties to the even multiple.\<close>
  "nearest x = of_int (rhe (x / ulp x)) * ulp x"

definition rne :: "real \<Rightarrow> pyfloat" where
  \<comment> \<open>Rounding to the nearest binary64 number, ties to even; overflow gives an infinity.\<close>
  "rne x =
     (let r = nearest x
      in if 2 ^ 1024 \<le> r then PInf else if r \<le> - (2 ^ 1024) then NInf else Fin r)"

definition double :: "real \<Rightarrow> bool" where
  \<comment> \<open>The real numbers that are binary64 values: rounding leaves them as they are.\<close>
  "double x = (rne x = Fin x)"

subsection \<open>Float operations\<close>

fun fsgn :: "pyfloat \<Rightarrow> real" where
  "fsgn (Fin a) = sgn a"
| "fsgn PInf = 1"
| "fsgn NInf = - 1"
| "fsgn NaN = 0"

fun fneg :: "pyfloat \<Rightarrow> pyfloat" where
  "fneg (Fin a) = Fin (- a)"
| "fneg PInf = NInf"
| "fneg NInf = PInf"
| "fneg NaN = NaN"

fun fabs :: "pyfloat \<Rightarrow> pyfloat" where
  \<comment> \<open>\<open>abs(x)\<close>\<close>
  "fabs (Fin a) = Fin \<bar>a\<bar>"
| "fabs PInf = PInf"
| "fabs NInf = PInf"
| "fabs NaN = NaN"

fun fadd :: "pyfloat \<Rightarrow> pyfloat \<Rightarrow> pyfloat" where
  \<comment> \<open>\<open>x + y\<close>\<close>
  "fadd (Fin a) (Fin b) = rne (a + b)"
| "fadd NaN y = NaN"
| "fadd x NaN = NaN"
| "fadd PInf NInf = NaN"
| "fadd NInf PInf = NaN"
| "fadd PInf y = PInf"
| "fadd x PInf = PInf"
| "fadd NInf y = NInf"
| "fadd x NInf = NInf"

definition fsub :: "pyfloat \<Rightarrow> pyfloat \<Rightarrow> pyfloat" where
  \<comment> \<open>\<open>x - y\<close>\<close>
  "fsub x y = fadd x (fneg y)"

definition fmul :: "pyfloat \<Rightarrow> pyfloat \<Rightarrow> pyfloat" where
  \<comment> \<open>\<open>x * y\<close>: an infinity times zero is NaN.\<close>
  "fmul x y =
     (case (x, y) of
        (Fin a, Fin b) \<Rightarrow> rne (a * b)
      | _ \<Rightarrow> if x = NaN \<or> y = NaN \<or> fsgn x * fsgn y = 0 then NaN
             else if 0 < fsgn x * fsgn y then PInf else NInf)"

definition fdiv :: "pyfloat \<Rightarrow> pyfloat \<Rightarrow> exn + pyfloat" where
  \<comment> \<open>\<open>x / y\<close>: a zero divisor raises, whatever the dividend.\<close>
  "fdiv x y =
     (if y = Fin 0 then Inl ZeroDivisionError
      else Inr (case (x, y) of
                  (Fin a, Fin b) \<Rightarrow> rne (a / b)
                | (Fin a, NaN) \<Rightarrow> NaN
                | (Fin a, _) \<Rightarrow> Fin 0
                | (NaN, _) \<Rightarrow> NaN
                | (_, Fin b) \<Rightarrow> if 0 < fsgn x * sgn b then PInf else NInf
                | (_, _) \<Rightarrow> NaN))"

fun fle :: "pyfloat \<Rightarrow> pyfloat \<Rightarrow> bool" where
  \<comment> \<open>\<open>x <= y\<close>: false when either side is NaN.\<close>
  "fle (Fin a) (Fin b) = (a \<le> b)"
| "fle NaN y = False"
| "fle x NaN = False"
| "fle NInf y = True"
| "fle x PInf = True"
| "fle x y = False"

fun flt :: "pyfloat \<Rightarrow> pyfloat \<Rightarrow> bool" where
  \<comment> \<open>\<open>x < y\<close>: false when either side is NaN.\<close>
  "flt (Fin a) (Fin b) = (a < b)"
| "flt NaN y = False"
| "flt x NaN = False"
| "flt PInf y = False"
| "flt x NInf = False"
| "flt x y = True"

definition fne :: "pyfloat \<Rightarrow> pyfloat \<Rightarrow> bool" where
  \<comment> \<open>\<open>x != y\<close>: true when either side is NaN.\<close>
  "fne x y = (x = NaN \<or> y = NaN \<or> x \<noteq> y)"

fun fint :: "pyfloat \<Rightarrow> exn + int" where
  \<comment> \<open>\<open>int(x)\<close>: truncation towards zero; an infinity or NaN raises.\<close>
  "fint (Fin a) = Inr (if 0 \<le> a then \<lfloor>a\<rfloor> else \<lceil>a\<rceil>)"
| "fint PInf = Inl OverflowError"
| "fint NInf = Inl OverflowError"
| "fint NaN = Inl ValueError"

fun fexp :: "pyfloat \<Rightarrow> exn + pyfloat" where
  \<comment> \<open>\<open>math.exp(x)\<close>, taken as the correctly rounded exponential: it raises
      \<open>OverflowError\<close> when the result is too large for a binary64 number.\<close>
  "fexp (Fin a) = (case rne (exp a) of Fin r \<Rightarrow> Inr (Fin r) | _ \<Rightarrow> Inl OverflowError)"
| "fexp PInf = Inr PInf"
| "fexp NInf = Inr (Fin 0)"
| "fexp NaN = Inr NaN"

subsection \<open>Other Python primitives used by the program\<close>

definition py_range :: "int \<Rightarrow> nat list" where
  \<comment> \<open>\<open>range(n)\<close>: empty when \<open>n\<close> is zero or negative.\<close>
  "py_range n = [0 ..< nat n]"

definition py_index :: "'a list \<Rightarrow> nat \<Rightarrow> exn + 'a" where
  \<comment> \<open>\<open>xs[i]\<close> for an index that is not negative.\<close>
  "py_index xs i = (if i < length xs then Inr (xs ! i) else Inl IndexError)"

definition py_last :: "'a list \<Rightarrow> exn + 'a" where
  \<comment> \<open>\<open>xs[-1]\<close>.\<close>
  "py_last xs = (if xs = [] then Inl IndexError else Inr (last xs))"

subsection \<open>The stepping loop of \<open>eulers_method\<close>\<close>

text \<open>The variables the first loop of \<open>eulers_method\<close> reads and updates.\<close>

record euler_state =
  x_values :: "pyfloat list"
  y_values :: "pyfloat list"
  slopes :: "pyfloat list"
  x_current :: pyfloat
  y_current :: pyfloat

definition euler_init :: "pyfloat \<Rightarrow> pyfloat \<Rightarrow> euler_state" where
  "euler_init x0 y0 =
     \<lparr>x_values = [x0], y_values = [y0], slopes = [], x_current = x0, y_current = y0\<rparr>"

definition euler_body :: "pyfloat \<Rightarrow> pyfloat \<Rightarrow> euler_state \<Rightarrow> euler_state" where
  \<comment> \<open>One pass through the body of the first loop.\<close>
  "euler_body k h s =
     (let slope = fmul k (y_current s);
          x_next = fadd (x_current s) h;
          y_next = fadd (y_current s) (fmul h slope)
      in \<lparr>x_values = x_values s @ [x_next],
          y_values = y_values s @ [y_next],
          slopes = slopes s @ [slope],
          x_current = x_next,
          y_current = y_next\<rparr>)"

fun euler_loop :: "pyfloat \<Rightarrow> pyfloat \<Rightarrow> nat list \<Rightarrow> euler_state \<Rightarrow> euler_state" where
  \<comment> \<open>\<open>for i in range(num_steps)\<close>; the body does not read \<open>i\<close>.\<close>
  "euler_loop k h [] s = s"
| "euler_loop k h (i # is) s = euler_loop k h is (euler_body k h s)"

subsection \<open>The table of steps\<close>

text \<open>One row of the table; the fields are its five columns, in order.\<close>

record step_record =
  Step :: nat
  x_n :: pyfloat
  y_n :: pyfloat
  f_x_n_y_n :: pyfloat
  y_n1 :: pyfloat

definition make_row :: "euler_state \<Rightarrow> nat \<Rightarrow> exn + step_record" where
  "make_row s i =
     (case py_index (x_values s) i of Inl e \<Rightarrow> Inl e | Inr x \<Rightarrow>
     (case py_index (y_values s) i of Inl e \<Rightarrow> Inl e | Inr y \<Rightarrow>
     (case py_index (slopes s) i of Inl e \<Rightarrow> Inl e | Inr f \<Rightarrow>
     (case py_index (y_values s) (i + 1) of Inl e \<Rightarrow> Inl e | Inr y' \<Rightarrow>
        Inr \<lparr>Step = i, x_n = x, y_n = y, f_x_n_y_n = f, y_n1 = y'\<rparr>))))"

fun df_loop :: "euler_state \<Rightarrow> nat list \<Rightarrow> step_record list \<Rightarrow> exn + step_record list" where
  \<comment> \<open>The second loop, appending one row to \<open>df_data\<close> per index.\<close>
  "df_loop s [] df_data = Inr df_data"
| "df_loop s (i # is) df_data =
     (case make_row s i of Inl e \<Rightarrow> Inl e
      | Inr row \<Rightarrow> df_loop s is (df_data @ [row]))"

subsection \<open>\<open>eulers_method\<close> and \<open>analytical_solution\<close>\<close>

definition eulers_method ::
  "pyfloat \<Rightarrow> pyfloat \<Rightarrow> pyfloat \<Rightarrow> pyfloat \<Rightarrow> pyfloat
     \<Rightarrow> exn + (step_record list \<times> pyfloat list \<times> pyfloat list)" where
  "eulers_method k x0 y0 x_target h =
     (case fdiv (fsub x_target x0) h of Inl e \<Rightarrow> Inl e | Inr q \<Rightarrow>
     (case fint q of Inl e \<Rightarrow> Inl e | Inr num_steps \<Rightarrow>
     (let s = euler_loop k h (py_range num_steps) (euler_init x0 y0)
      in (case df_loop s (py_range num_steps) [] of Inl e \<Rightarrow> Inl e
          | Inr df_data \<Rightarrow> Inr (df_data, x_values s, y_values s)))))"

definition analytical_solution ::
  "pyfloat \<Rightarrow> pyfloat \<Rightarrow> pyfloat \<Rightarrow> pyfloat \<Rightarrow> exn + pyfloat" where
  "analytical_solution k x0 y0 x =
     (case fexp (fmul k (fsub x x0)) of Inl e \<Rightarrow> Inl e | Inr v \<Rightarrow> Inr (fmul y0 v))"

subsection \<open>The Calculate branch of \<open>main\<close>\<close>

text \<open>
  The two lines of \<open>main\<close> that compute the absolute error and the relative error in
  percent from the final approximation and the analytical value.
\<close>

definition error_metrics :: "pyfloat \<Rightarrow> pyfloat \<Rightarrow> exn + (pyfloat \<times> pyfloat)" where
  "error_metrics final_y analytical_y =
     (let error = fabs (fsub analytical_y final_y)
      in if fne analytical_y (Fin 0)
         then (case fdiv error (fabs analytical_y) of Inl e \<Rightarrow> Inl e
               | Inr q \<Rightarrow> Inr (error, fmul q (Fin 100)))
         else Inr (error, Fin 0))"

fun curve ::
  "pyfloat \<Rightarrow> pyfloat \<Rightarrow> pyfloat \<Rightarrow> pyfloat list \<Rightarrow> exn + pyfloat list" where
  \<comment> \<open>\<open>[analytical_solution(k, x0, y0, x) for x in x_analytical]\<close>\<close>
  "curve k x0 y0 [] = Inr []"
| "curve k x0 y0 (x # xs) =
     (case analytical_solution k x0 y0 x of Inl e \<Rightarrow> Inl e | Inr y \<Rightarrow>
     (case curve k x0 y0 xs of Inl e \<Rightarrow> Inl e | Inr ys \<Rightarrow> Inr (y # ys)))"

text \<open>
  What \<open>main\<close> reports after a press of Calculate. The three validation messages
  (\<open>Step size must be positive!\<close>, \<open>Target x value must be greater than initial x
  value!\<close>, \<open>Too many steps! ...\<close>) are the first three failures; an exception
  caught by the \<open>try\<close> block is \<open>CalculationError\<close>; one raised outside of it is
  \<open>Uncaught\<close>.

  The calls that draw the page (the streamlit widgets, the pandas table and the plotly
  figure) are not modelled. \<open>np.linspace\<close> is a library function: the list of sample
  points it returns, \<open>x_analytical\<close>, is a parameter of the model. The step size comes
  from a widget that keeps it between 0.001 and 1; the model takes any step size, as the
  checks of \<open>main\<close> do.
\<close>

datatype failure =
  InvalidStepSize | InvalidRange | StepCountExceeded | CalculationError exn | Uncaught exn

record report =
  df :: "step_record list"
  trajectory_x :: "pyfloat list"
  trajectory_y :: "pyfloat list"
  final_x :: pyfloat
  final_y :: pyfloat
  analytical_y :: pyfloat
  y_analytical :: "pyfloat list"
  error :: pyfloat
  relative_error :: pyfloat

definition calculate ::
  "pyfloat \<Rightarrow> pyfloat \<Rightarrow> pyfloat \<Rightarrow> pyfloat \<Rightarrow> pyfloat \<Rightarrow> pyfloat list \<Rightarrow> exn + report" where
  \<comment> \<open>The computations of the \<open>try\<close> block, in the order of the source.\<close>
  "calculate k x0 y0 x_target h x_analytical =
     (case eulers_method k x0 y0 x_target h of Inl e \<Rightarrow> Inl e | Inr (d, xs, ys) \<Rightarrow>
     (case py_last xs of Inl e \<Rightarrow> Inl e | Inr fx \<Rightarrow>
     (case py_last ys of Inl e \<Rightarrow> Inl e | Inr fy \<Rightarrow>
     (case analytical_solution k x0 y0 fx of Inl e \<Rightarrow> Inl e | Inr ay \<Rightarrow>
     (case curve k x0 y0 x_analytical of Inl e \<Rightarrow> Inl e | Inr c \<Rightarrow>
     (case error_metrics fy ay of Inl e \<Rightarrow> Inl e
      | Inr (err, rel) \<Rightarrow>
          Inr \<lparr>df = d, trajectory_x = xs, trajectory_y = ys, final_x = fx, final_y = fy,
               analytical_y = ay, y_analytical = c, error = err, relative_error = rel\<rparr>))))))"

definition main ::
  "pyfloat \<Rightarrow> pyfloat \<Rightarrow> pyfloat \<Rightarrow> pyfloat \<Rightarrow> pyfloat \<Rightarrow> pyfloat list \<Rightarrow> failure + report" where
  "main k x0 y0 x_target h x_analytical =
     (if fle h (Fin 0) then Inl InvalidStepSize
      else if fle x_target x0 then Inl InvalidRange
      else (case fdiv (fsub x_target x0) h of Inl e \<Rightarrow> Inl (Uncaught e) | Inr q \<Rightarrow>
        if flt (Fin 10000) q then Inl StepCountExceeded
        else (case calculate k x0 y0 x_target h x_analytical of
                Inl e \<Rightarrow> Inl (CalculationError e)
              | Inr r \<Rightarrow> Inr r)))"

text \<open>
  The inputs that pass the three checks of \<open>main\<close>: binary64 numbers with a positive
  step, a target to the right of the start, and a computed quotient of at most 10000.
\<close>

definition valid_input :: "real \<Rightarrow> real \<Rightarrow> real \<Rightarrow> bool" where
  "valid_input x0 x_target h =
     (double x0 \<and> double x_target \<and> double h \<and> 0 < h \<and> x0 < x_target \<and>
      (case fdiv (fsub (Fin x_target) (Fin x0)) (Fin h) of
         Inl e \<Rightarrow> False | Inr q \<Rightarrow> \<not> flt (Fin 10000) q))"

text \<open>
  The metrics are shown in the formats \<open>.6f\<close> and \<open>.2f\<close>: the exact value of the
  binary64 number rounded to \<open>d\<close> decimals, a tie going to the even digit. \<open>fixed d v\<close>
  is the number shown, counted in units of \<open>10 ^ -d\<close> (so \<open>2.593742\<close> with six
  decimals is \<open>2593742\<close>); an infinity or NaN is shown as a word, not as a number.
\<close>

fun fixed :: "nat \<Rightarrow> pyfloat \<Rightarrow> int option" where
  "fixed d (Fin v) = Some (rhe (v * 10 ^ d))"
| "fixed d v = None"

section \<open>The trajectory as iterated steps\<close>

text \<open>
  The \<open>i\<close>-th point of the trajectory is the start after \<open>i\<close> passes of the loop
  body. These three functions name it; they are used to state what the loops return.
\<close>

definition euler_x :: "pyfloat \<Rightarrow> pyfloat \<Rightarrow> nat \<Rightarrow> pyfloat" where
  "euler_x x0 h i = ((\<lambda>x. fadd x h) ^^ i) x0"

definition euler_y :: "pyfloat \<Rightarrow> pyfloat \<Rightarrow> pyfloat \<Rightarrow> nat \<Rightarrow> pyfloat" where
  "euler_y k y0 h i = ((\<lambda>y. fadd y (fmul h (fmul k y))) ^^ i) y0"

definition euler_row :: "pyfloat \<Rightarrow> pyfloat \<Rightarrow> pyfloat \<Rightarrow> pyfloat \<Rightarrow> nat \<Rightarrow> step_record" where
  "euler_row k x0 y0 h i =
     \<lparr>Step = i, x_n = euler_x x0 h i, y_n = euler_y k y0 h i,
      f_x_n_y_n = fmul k (euler_y k y0 h i), y_n1 = euler_y k y0 h (Suc i)\<rparr>"

section \<open>Auxiliary notions of the proofs\<close>


section \<open>Rounding to an integer\<close>

lemma rhe_cases:
  "(rhe t = \<lfloor>t\<rfloor> \<and> t - of_int \<lfloor>t\<rfloor> \<le> 1 / 2) \<or> (rhe t = \<lfloor>t\<rfloor> + 1 \<and> 1 / 2 \<le> t - of_int \<lfloor>t\<rfloor>)"
  unfolding rhe_def Let_def by simp

lemma rhe_of_int [simp]: "rhe (of_int n) = n"
  by (simp add: rhe_def)

lemma rhe_err: "\<bar>of_int (rhe t) - t\<bar> \<le> 1 / 2"
proof -
  have "of_int \<lfloor>t\<rfloor> \<le> t" "t < of_int \<lfloor>t\<rfloor> + 1" by linarith+
  then show ?thesis using rhe_cases [of t] by (elim disjE conjE) simp_all
qed

lemma rhe_eqI: "\<bar>t - of_int n\<bar> < 1 / 2 \<Longrightarrow> rhe t = n"
proof -
  assume a: "\<bar>t - of_int n\<bar> < 1 / 2"
  have "\<bar>of_int (rhe t) - t\<bar> \<le> 1 / 2" by (rule rhe_err)
  with a have "\<bar>(of_int (rhe t) :: real) - of_int n\<bar> < 1" by linarith
  then have "\<bar>rhe t - n\<bar> < 1"
    by (metis of_int_abs of_int_diff of_int_less_1_iff)
  then show ?thesis by simp
qed

lemma rhe_ge: "of_int n \<le> t \<Longrightarrow> n \<le> rhe t"
proof -
  assume "of_int n \<le> t"
  then have "n \<le> \<lfloor>t\<rfloor>" by (simp add: le_floor_iff)
  then show ?thesis using rhe_cases [of t] by auto
qed

lemma rhe_le: "t \<le> of_int n \<Longrightarrow> rhe t \<le> n"
proof (cases "t = of_int n")
  case True
  then show ?thesis by simp
next
  case False
  assume "t \<le> of_int n"
  with False have "t < of_int n" by simp
  then have "\<lfloor>t\<rfloor> < n" by (simp add: floor_less_iff)
  then show ?thesis using rhe_cases [of t] by auto
qed

lemma rhe_mono: "a \<le> b \<Longrightarrow> rhe a \<le> rhe b"
proof -
  assume ab: "a \<le> b"
  have fl: "\<lfloor>a\<rfloor> \<le> \<lfloor>b\<rfloor>" using ab by (rule floor_mono)
  show ?thesis
  proof (cases "\<lfloor>a\<rfloor> = \<lfloor>b\<rfloor>")
    case True
    show ?thesis
    proof (cases "a - of_int \<lfloor>a\<rfloor> < 1 / 2")
      case True
      then have "rhe a = \<lfloor>a\<rfloor>" by (simp add: rhe_def)
      then show ?thesis using \<open>\<lfloor>a\<rfloor> = \<lfloor>b\<rfloor>\<close> rhe_cases [of b] by auto
    next
      case False
      show ?thesis
      proof (cases "1 / 2 < b - of_int \<lfloor>b\<rfloor>")
        case True
        then have "rhe b = \<lfloor>b\<rfloor> + 1" by (simp add: rhe_def)
        then show ?thesis using \<open>\<lfloor>a\<rfloor> = \<lfloor>b\<rfloor>\<close> rhe_cases [of a] by auto
      next
        case f: False
        with False ab \<open>\<lfloor>a\<rfloor> = \<lfloor>b\<rfloor>\<close> have "a = b" by simp
        then show ?thesis by simp
      qed
    qed
  next
    case False
    with fl have "\<lfloor>a\<rfloor> + 1 \<le> \<lfloor>b\<rfloor>" by simp
    then show ?thesis using rhe_cases [of a] rhe_cases [of b] by auto
  qed
qed

lemma rhe_uminus: "rhe (- t) = - rhe t"
proof (cases "t = of_int \<lfloor>t\<rfloor>")
  case True
  then obtain n where "t = of_int n" ..
  then show ?thesis by (simp flip: of_int_minus)
next
  case False
  define f where "f = \<lfloor>t\<rfloor>"
  define d where "d = t - of_int f"
  have d: "0 < d" "d < 1"
    using False unfolding d_def f_def by linarith+
  have t: "t = of_int f + d" by (simp add: d_def)
  have fm: "\<lfloor>- t\<rfloor> = - f - 1"
    unfolding t using d by (simp add: floor_eq_iff)
  have ft: "\<lfloor>t\<rfloor> = f" by (simp add: f_def)
  have par: "even (- f - 1) \<longleftrightarrow> odd f" by simp
  show ?thesis
    unfolding rhe_def Let_def fm ft par
    unfolding t using d by (auto simp add: algebra_simps)
qed

section \<open>Exponent and unit in the last place\<close>

lemma ulp_pos: "0 < ulp x"
  by (simp add: ulp_def)

lemma ulp_expo: "ulp x = 2 powr of_int (expo x - 52)"
  by (simp add: ulp_def)

lemma expo_ge: "- 1022 \<le> expo x"
  by (simp add: expo_def)


lemma expo_uminus: "expo (- x) = expo x"
  by (simp add: expo_def)

lemma ulp_uminus: "ulp (- x) = ulp x"
  by (simp add: ulp_def expo_uminus)

lemma expo_eqI:
  assumes "2 powr of_int e \<le> \<bar>x\<bar>" "\<bar>x\<bar> < 2 powr of_int (e + 1)" "- 1022 \<le> e"
  shows "expo x = e"
proof -
  have pos: "0 < \<bar>x\<bar>"
    using assms(1) by (smt (verit) powr_gt_zero)
  then have "x \<noteq> 0" by simp
  moreover have "\<lfloor>log 2 \<bar>x\<bar>\<rfloor> = e"
    using assms(1,2) pos by (subst floor_log_eq_powr_iff) simp_all
  ultimately show ?thesis using assms(3) by (simp add: expo_def)
qed

lemma expo_subnormal:
  assumes "\<bar>x\<bar> < 2 powr of_int (- 1022)"
  shows "expo x = - 1022"
proof (cases "x = 0")
  case True
  then show ?thesis by (simp add: expo_def)
next
  case False
  then have pos: "0 < \<bar>x\<bar>" by simp
  have "log 2 \<bar>x\<bar> < of_int (- 1022)"
    using assms pos by (subst log_less_iff) simp_all
  then have "\<lfloor>log 2 \<bar>x\<bar>\<rfloor> < - 1022"
    by (simp add: floor_less_iff)
  then show ?thesis using False by (simp add: expo_def)
qed

lemma expo_bounds:
  assumes "x \<noteq> 0"
  shows "\<bar>x\<bar> < 2 powr of_int (expo x + 1)"
    and "- 1022 < expo x \<Longrightarrow> 2 powr of_int (expo x) \<le> \<bar>x\<bar>"
proof -
  from assms have pos: "0 < \<bar>x\<bar>" by simp
  define l where "l = \<lfloor>log 2 \<bar>x\<bar>\<rfloor>"
  have l: "2 powr of_int l \<le> \<bar>x\<bar>" "\<bar>x\<bar> < 2 powr of_int (l + 1)"
    using floor_log_eq_powr_iff [of "\<bar>x\<bar>" 2 l] pos by (simp_all add: l_def)
  have e: "expo x = max l (- 1022)"
    using assms by (simp add: expo_def l_def)
  have "l \<le> expo x" by (simp add: e)
  then have "2 powr of_int (l + 1) \<le> (2::real) powr of_int (expo x + 1)"
    by (intro powr_mono) simp_all
  with l(2) show "\<bar>x\<bar> < 2 powr of_int (expo x + 1)" by linarith
  assume "- 1022 < expo x"
  then have "expo x = l" by (simp add: e max_def split: if_splits)
  with l(1) show "2 powr of_int (expo x) \<le> \<bar>x\<bar>" by simp
qed

lemma expo_le:
  assumes "\<bar>x\<bar> \<le> 2 powr of_int j" "- 1022 \<le> j"
  shows "expo x \<le> j"
proof (rule ccontr)
  assume "\<not> expo x \<le> j"
  then have gt: "j + 1 \<le> expo x" by simp
  then have big: "- 1022 < expo x" using assms(2) by simp
  then have "x \<noteq> 0" by (auto simp add: expo_def)
  from expo_bounds(2) [OF this big] have "2 powr of_int (expo x) \<le> \<bar>x\<bar>" .
  moreover have "(2::real) powr of_int (j + 1) \<le> 2 powr of_int (expo x)"
    using gt by (intro powr_mono) simp_all
  moreover have "(2::real) powr of_int j < 2 powr of_int (j + 1)"
    by (intro powr_less_mono) simp_all
  ultimately show False using assms(1) by linarith
qed

section \<open>Rounding to binary64: the error\<close>

lemma two_powr_add: "(2::real) powr of_int (a + b) = 2 powr of_int a * 2 powr of_int b"
  by (simp add: powr_add)

lemma two_powr_53: "(2::real) powr of_int (e + 1) = 2 ^ 53 * 2 powr of_int (e - 52)"
proof -
  have eq: "53 + (e - 52) = e + 1" by simp
  show ?thesis using two_powr_add [of 53 "e - 52"] unfolding eq by simp
qed

lemma two_powr_52: "(2::real) powr of_int e = 2 ^ 52 * 2 powr of_int (e - 52)"
proof -
  have eq: "52 + (e - 52) = e" by simp
  show ?thesis using two_powr_add [of 52 "e - 52"] unfolding eq by simp
qed

lemma two_powr_double: "(2::real) powr of_int (e + 1) = 2 * 2 powr of_int e"
proof -
  have eq: "1 + e = e + 1" by simp
  show ?thesis using two_powr_add [of 1 e] unfolding eq by simp
qed

lemma rhe_zero [simp]: "rhe 0 = 0"
  by (simp add: rhe_def)

lemma nearest_err: "\<bar>nearest x - x\<bar> \<le> ulp x / 2"
proof -
  define u where "u = ulp x"
  define q where "q = x / u"
  have u: "0 < u" unfolding u_def by (rule ulp_pos)
  then have x: "q * u = x" by (simp add: q_def)
  have "\<bar>of_int (rhe q) - q\<bar> \<le> 1 / 2" by (rule rhe_err)
  then have "\<bar>of_int (rhe q) - q\<bar> * u \<le> 1 / 2 * u"
    using u by (intro mult_right_mono) simp_all
  moreover have n: "nearest x = of_int (rhe q) * u"
    by (simp add: nearest_def u_def q_def)
  have "nearest x - q * u = (of_int (rhe q) - q) * u"
    unfolding n by (simp add: algebra_simps)
  then have "\<bar>nearest x - x\<bar> = \<bar>of_int (rhe q) - q\<bar> * u"
    unfolding x using u by (simp add: abs_mult)
  ultimately show ?thesis
    by (simp add: u_def)
qed

lemma nearest_zero [simp]: "nearest 0 = 0"
  by (simp add: nearest_def)

lemma nearest_uminus: "nearest (- x) = - nearest x"
  by (simp add: nearest_def ulp_uminus rhe_uminus)

lemma nearest_nonneg: "0 \<le> x \<Longrightarrow> 0 \<le> nearest x"
proof -
  assume "0 \<le> x"
  then have "of_int 0 \<le> x / ulp x" using ulp_pos [of x] by simp
  then have "0 \<le> rhe (x / ulp x)" by (rule rhe_ge)
  then show ?thesis using ulp_pos [of x] by (simp add: nearest_def)
qed

lemma nearest_upper:
  assumes "0 \<le> x"
  shows "nearest x \<le> 2 powr of_int (expo x + 1)"
proof (cases "x = 0")
  case True
  then show ?thesis by simp
next
  case False
  have u: "0 < ulp x" by (rule ulp_pos)
  from expo_bounds(1) [OF False] assms have "x < 2 powr of_int (expo x + 1)" by simp
  then have "x < 2 ^ 53 * ulp x"
    unfolding two_powr_53 ulp_expo .
  then have "x / ulp x \<le> of_int (2 ^ 53)"
    using u by (simp add: pos_divide_le_eq)
  then have "rhe (x / ulp x) \<le> 2 ^ 53" by (rule rhe_le)
  then have "(of_int (rhe (x / ulp x)) :: real) \<le> 2 ^ 53"
    by (metis of_int_le_iff of_int_numeral of_int_power)
  then have "of_int (rhe (x / ulp x)) * ulp x \<le> 2 ^ 53 * ulp x"
    using u by (intro mult_right_mono) simp_all
  then show ?thesis unfolding nearest_def two_powr_53 ulp_expo .
qed

lemma nearest_lower:
  assumes "0 < x" "- 1022 < expo x"
  shows "2 powr of_int (expo x) \<le> nearest x"
proof -
  have u: "0 < ulp x" by (rule ulp_pos)
  from assms have "x \<noteq> 0" by simp
  from expo_bounds(2) [OF this assms(2)] assms(1) have "2 powr of_int (expo x) \<le> x" by simp
  then have "2 ^ 52 * ulp x \<le> x"
    unfolding two_powr_52 [of "expo x"] ulp_expo .
  then have "of_int (2 ^ 52) \<le> x / ulp x"
    using u by (simp add: pos_le_divide_eq)
  then have "2 ^ 52 \<le> rhe (x / ulp x)" by (rule rhe_ge)
  then have "(2 ^ 52 :: real) \<le> of_int (rhe (x / ulp x))"
    by (metis of_int_le_iff of_int_numeral of_int_power)
  then have "2 ^ 52 * ulp x \<le> of_int (rhe (x / ulp x)) * ulp x"
    using u by (intro mult_right_mono) simp_all
  then show ?thesis unfolding nearest_def two_powr_52 [of "expo x"] ulp_expo .
qed

lemma rne_Fin:
  assumes "\<bar>nearest x\<bar> < 2 ^ 1024"
  shows "rne x = Fin (nearest x)"
  using assms by (simp add: rne_def Let_def abs_less_iff)

lemma rne_zero [simp]: "rne 0 = Fin 0"
  by (simp add: rne_def)

lemma rne_uminus: "rne (- x) = fneg (rne x)"
  by (simp add: rne_def Let_def nearest_uminus)

text \<open>The rounding error of a value of magnitude at most \<open>2 ^ j\<close>.\<close>

lemma rne_err:
  assumes "\<bar>x\<bar> \<le> 2 powr of_int j" "- 1022 \<le> j" "j \<le> 1022"
  shows "\<exists>r. rne x = Fin r \<and> \<bar>r - x\<bar> \<le> 2 powr of_int (j - 53)"
proof -
  have "expo x \<le> j" by (rule expo_le [OF assms(1,2)])
  then have "ulp x \<le> 2 powr of_int (j - 52)"
    unfolding ulp_expo by (intro powr_mono) simp_all
  moreover have "(2::real) powr of_int (j - 52) = 2 * 2 powr of_int (j - 53)"
    using two_powr_double [of "j - 53"] by simp
  ultimately have e: "\<bar>nearest x - x\<bar> \<le> 2 powr of_int (j - 53)"
    using nearest_err [of x] by simp
  have "(2::real) powr of_int (j - 53) \<le> 2 powr of_int j"
    by (intro powr_mono) simp_all
  with e assms(1) have "\<bar>nearest x\<bar> \<le> 2 * 2 powr of_int j" by linarith
  also have "\<dots> = 2 powr of_int (j + 1)"
    by (rule two_powr_double [symmetric])
  also have "\<dots> \<le> 2 powr of_int 1023"
    using assms(3) by (intro powr_mono) simp_all
  also have "\<dots> < 2 powr of_int 1024"
    by (intro powr_less_mono) simp_all
  finally have "\<bar>nearest x\<bar> < 2 ^ 1024" by simp
  then have "rne x = Fin (nearest x)" by (rule rne_Fin)
  with e show ?thesis by blast
qed

section \<open>Rounding to binary64: monotonicity and overflow\<close>

lemma expo_mono:
  assumes "\<bar>a\<bar> \<le> \<bar>b\<bar>"
  shows "expo a \<le> expo b"
proof (cases "expo a = - 1022")
  case True
  then show ?thesis using expo_ge [of b] by simp
next
  case False
  then have big: "- 1022 < expo a" using expo_ge [of a] by simp
  then have a0: "a \<noteq> 0" by (auto simp add: expo_def)
  with assms have b0: "b \<noteq> 0" by auto
  have "2 powr of_int (expo a) \<le> \<bar>a\<bar>" by (rule expo_bounds(2) [OF a0 big])
  also note assms
  also have "\<bar>b\<bar> < 2 powr of_int (expo b + 1)" by (rule expo_bounds(1) [OF b0])
  finally have "(of_int (expo a) :: real) < of_int (expo b + 1)"
    by (simp only: powr_less_cancel_iff [of 2]) 
  then show ?thesis by simp
qed

lemma nearest_mono_nonneg:
  assumes "0 \<le> a" "a \<le> b"
  shows "nearest a \<le> nearest b"
proof -
  have le: "expo a \<le> expo b"
    using assms by (intro expo_mono) simp
  show ?thesis
  proof (cases "expo a = expo b")
    case True
    then have u: "ulp a = ulp b" by (simp add: ulp_def)
    have "a / ulp b \<le> b / ulp b"
      using assms(2) ulp_pos [of b] by (simp add: divide_right_mono)
    then have "rhe (a / ulp b) \<le> rhe (b / ulp b)" by (rule rhe_mono)
    then have "(of_int (rhe (a / ulp b)) :: real) \<le> of_int (rhe (b / ulp b))" by simp
    then show ?thesis
      unfolding nearest_def u using ulp_pos [of b] by (intro mult_right_mono) simp_all
  next
    case False
    with le have lt: "expo a + 1 \<le> expo b" by simp
    then have big: "- 1022 < expo b" using expo_ge [of a] by simp
    then have "b \<noteq> 0" by (auto simp add: expo_def)
    with assms have b: "0 < b" by simp
    have "nearest a \<le> 2 powr of_int (expo a + 1)" by (rule nearest_upper [OF assms(1)])
    also have "\<dots> \<le> 2 powr of_int (expo b)"
      using lt by (intro powr_mono) simp_all
    also have "\<dots> \<le> nearest b" by (rule nearest_lower [OF b big])
    finally show ?thesis .
  qed
qed

lemma nearest_mono:
  assumes "a \<le> b"
  shows "nearest a \<le> nearest b"
proof -
  consider "0 \<le> a" | "b \<le> 0" | "a \<le> 0" "0 \<le> b" by linarith
  then show ?thesis
  proof cases
    case 1
    then show ?thesis using assms by (rule nearest_mono_nonneg)
  next
    case 2
    then have "nearest (- b) \<le> nearest (- a)"
      using assms by (intro nearest_mono_nonneg) simp_all
    then show ?thesis by (simp add: nearest_uminus)
  next
    case 3
    have "0 \<le> nearest b" by (rule nearest_nonneg [OF 3(2)])
    moreover have "0 \<le> nearest (- a)" using 3(1) by (intro nearest_nonneg) simp
    ultimately show ?thesis by (simp add: nearest_uminus)
  qed
qed

lemma rne_mono:
  assumes "a \<le> b"
  shows "fle (rne a) (rne b)"
  using nearest_mono [OF assms] by (simp add: rne_def Let_def)

lemma rne_nonneg:
  assumes "0 \<le> x"
  shows "fle (Fin 0) (rne x)"
  using rne_mono [OF assms] by simp

lemma rne_overflow:
  assumes "2 ^ 1024 \<le> x"
  shows "rne x = PInf"
proof -
  have x: "0 < x" "x \<noteq> 0" using assms by (smt (verit) zero_less_power)+
  have "(2::real) powr of_int 1024 \<le> \<bar>x\<bar>" using assms by simp
  also have "\<bar>x\<bar> < 2 powr of_int (expo x + 1)" by (rule expo_bounds(1) [OF x(2)])
  finally have "(of_int 1024 :: real) < of_int (expo x + 1)"
    by (simp only: powr_less_cancel_iff [of 2])
  then have e: "1024 \<le> expo x" by simp
  then have "(2::real) powr of_int 1024 \<le> 2 powr of_int (expo x)"
    by (intro powr_mono) simp_all
  also have "\<dots> \<le> nearest x"
    using e by (intro nearest_lower x) simp
  finally show ?thesis by (simp add: rne_def Let_def)
qed

lemma rne_expo:
  assumes "expo x \<le> 1022"
  shows "rne x = Fin (nearest x)"
proof (cases "x = 0")
  case True
  then show ?thesis by simp
next
  case False
  have "\<bar>x\<bar> < 2 powr of_int (expo x + 1)" by (rule expo_bounds(1) [OF False])
  also have "\<dots> \<le> 2 powr of_int 1023"
    using assms by (intro powr_mono) simp_all
  finally have x: "\<bar>x\<bar> < 2 ^ 1023" by simp
  have "ulp x \<le> 2 powr of_int 970"
    unfolding ulp_expo using assms by (intro powr_mono) simp_all
  then have "ulp x \<le> 2 ^ 970" by simp
  also have "(2::real) ^ 970 \<le> 2 ^ 1023" by (intro power_increasing) simp_all
  finally have "ulp x / 2 < 2 ^ 1023" using ulp_pos [of x] by linarith
  with x nearest_err [of x] have "\<bar>nearest x\<bar> < 2 ^ 1023 + 2 ^ 1023" by linarith
  then have "\<bar>nearest x\<bar> < 2 ^ 1024" by simp
  then show ?thesis by (rule rne_Fin)
qed

section \<open>Binary64 numbers are fixed points of the rounding\<close>

text \<open>A value \<open>m * 2 ^ c\<close> with \<open>\<bar>m\<bar> < 2 ^ 53\<close> in the exponent range is a binary64 number.\<close>

lemma nearest_grid:
  assumes r: "r = of_int m * 2 powr of_int c" and c: "expo r - 52 \<le> c"
  shows "nearest r = r"
proof -
  define d where "d = nat (c - (expo r - 52))"
  have d: "int d = c - (expo r - 52)" using c by (simp add: d_def)
  have "(2::real) powr of_int c = 2 powr of_int (int d + (expo r - 52))"
    by (simp add: d)
  also have "\<dots> = 2 powr of_int (int d) * 2 powr of_int (expo r - 52)"
    by (rule two_powr_add)
  also have "(2::real) powr of_int (int d) = 2 ^ d"
    by (simp add: powr_realpow)
  finally have p: "(2::real) powr of_int c = 2 ^ d * ulp r"
    by (simp add: ulp_expo)
  have r': "r = of_int m * (2 ^ d * ulp r)"
    using r p by simp
  have "r / ulp r = of_int m * (2 ^ d * ulp r) / ulp r"
    using r' by simp
  also have "\<dots> = of_int (m * 2 ^ d)"
    using ulp_pos [of r] by simp
  finally have "rhe (r / ulp r) = m * 2 ^ d" by (simp only: rhe_of_int)
  then have "nearest r = of_int (m * 2 ^ d) * ulp r"
    by (simp add: nearest_def)
  also have "\<dots> = of_int m * (2 ^ d * ulp r)" by simp
  also have "\<dots> = r" using r' by simp
  finally show ?thesis .
qed

lemma double_intI:
  assumes r: "r = of_int m * 2 powr of_int c"
    and m: "\<bar>m\<bar> < 2 ^ 53" and c: "- 1074 \<le> c" "c \<le> 971"
  shows "double r"
proof (cases "r = 0")
  case True
  then show ?thesis by (simp add: double_def)
next
  case False
  have "\<bar>r\<bar> = of_int \<bar>m\<bar> * 2 powr of_int c"
    unfolding r by (simp add: abs_mult)
  also have "\<dots> < 2 ^ 53 * 2 powr of_int c"
  proof -
    have "(of_int \<bar>m\<bar> :: real) < 2 ^ 53"
      using m by (metis of_int_less_iff of_int_numeral of_int_power)
    then show ?thesis by (intro mult_strict_right_mono) simp_all
  qed
  also have "\<dots> = 2 powr of_int (c + 53)"
    using two_powr_add [of 53 c] by (simp add: add.commute)
  finally have lt: "\<bar>r\<bar> < 2 powr of_int (c + 53)" .
  have e: "expo r \<le> c + 52"
  proof (cases "expo r = - 1022")
    case True
    then show ?thesis using c(1) by simp
  next
    case F: False
    then have big: "- 1022 < expo r" using expo_ge [of r] by simp
    have "2 powr of_int (expo r) \<le> \<bar>r\<bar>" by (rule expo_bounds(2) [OF False big])
    also note lt
    finally have "(of_int (expo r) :: real) < of_int (c + 53)"
      by (simp only: powr_less_cancel_iff [of 2])
    then show ?thesis by simp
  qed
  then have n: "nearest r = r"
    by (intro nearest_grid [OF r]) simp
  have "(2::real) powr of_int (c + 53) \<le> 2 powr of_int 1024"
    using c(2) by (intro powr_mono) simp_all
  with lt have "\<bar>nearest r\<bar> < 2 ^ 1024" unfolding n by simp
  then have "rne r = Fin (nearest r)" by (rule rne_Fin)
  with n show ?thesis by (simp add: double_def)
qed

lemma double_uminus: "double (- x) \<longleftrightarrow> double x"
  by (cases "rne x") (auto simp add: double_def rne_uminus)



section \<open>Evaluating the rounding at a given value\<close>

lemma two_powr_neg: "(2::real) powr of_int (- int k) = 1 / 2 ^ k"
  by (simp add: powr_minus_divide powr_realpow)

lemma two_powr_nat: "(2::real) powr of_int (int k) = 2 ^ k"
  by (simp add: powr_realpow)

lemma rne_down:
  assumes k: "k \<le> 1074"
    and hi: "\<bar>x\<bar> * 2 ^ k < 2 ^ 53"
    and lo: "k = 1074 \<or> 2 ^ 52 \<le> \<bar>x\<bar> * 2 ^ k"
    and n: "\<bar>x * 2 ^ k - of_int n\<bar> < 1 / 2"
  shows "rne x = Fin (of_int n / 2 ^ k)"
proof -
  define e where "e = 52 - int k"
  have e: "- 1022 \<le> e" "e \<le> 1022" using k by (simp_all add: e_def)
  have pk: "(2::real) powr of_int (e - 52) = 1 / 2 ^ k"
    using two_powr_neg [of k] by (simp add: e_def)
  have ex: "expo x = e"
  proof (cases "2 ^ 52 \<le> \<bar>x\<bar> * 2 ^ k")
    case True
    have "2 powr of_int e \<le> \<bar>x\<bar>"
      unfolding two_powr_52 [of e] pk using True by (simp add: field_simps)
    moreover have "\<bar>x\<bar> < 2 powr of_int (e + 1)"
      unfolding two_powr_53 [of e] pk using hi by (simp add: field_simps)
    ultimately show ?thesis using e(1) by (rule expo_eqI)
  next
    case False
    with lo have k': "k = 1074" by simp
    then have e': "e = - 1022" by (simp add: e_def)
    have "\<bar>x\<bar> < 2 powr of_int e"
      unfolding two_powr_52 [of e] pk using False by (simp add: field_simps)
    then show ?thesis unfolding e' by (rule expo_subnormal)
  qed
  have u: "ulp x = 1 / 2 ^ k" by (simp only: ulp_expo ex pk)
  have "rhe (x / ulp x) = n"
    using n by (intro rhe_eqI) (simp add: u)
  then have "nearest x = of_int n / 2 ^ k"
    by (simp add: nearest_def u)
  moreover have "rne x = Fin (nearest x)"
    using e(2) by (intro rne_expo) (simp add: ex)
  ultimately show ?thesis by simp
qed


lemma double_down:
  assumes "x = of_int m / 2 ^ k" "\<bar>m\<bar> < 2 ^ 53" "k \<le> 1074"
  shows "double x"
proof (rule double_intI [of x m "- int k"])
  show "x = of_int m * 2 powr of_int (- int k)"
    unfolding two_powr_neg using assms(1) by simp
qed (use assms in simp_all)

lemma double_up:
  assumes "x = of_int m * 2 ^ k" "\<bar>m\<bar> < 2 ^ 53" "k \<le> 971"
  shows "double x"
proof (rule double_intI [of x m "int k"])
  show "x = of_int m * 2 powr of_int (int k)"
    unfolding two_powr_nat using assms(1) by simp
qed (use assms in simp_all)

lemma double_int:
  assumes "\<bar>m\<bar> < 2 ^ 53"
  shows "double (of_int m)"
  using double_up [of "of_int m" m 0] assms by simp

lemma double_rne: "double x \<Longrightarrow> rne x = Fin x"
  by (simp add: double_def)

section \<open>What the two loops return\<close>

lemma upt_0_Suc_shift: "[0 ..< Suc n] = 0 # map Suc [0 ..< n]"
  by (simp add: upt_conv_Cons map_Suc_upt del: upt_Suc)

lemma euler_x_0 [simp]: "euler_x x0 h 0 = x0"
  by (simp add: euler_x_def)

lemma euler_y_0 [simp]: "euler_y k y0 h 0 = y0"
  by (simp add: euler_y_def)

lemma euler_x_Suc: "euler_x x0 h (Suc i) = fadd (euler_x x0 h i) h"
  by (simp add: euler_x_def)

lemma euler_y_Suc: "euler_y k y0 h (Suc i) = fadd (euler_y k y0 h i) (fmul h (fmul k (euler_y k y0 h i)))"
  by (simp add: euler_y_def)

lemma euler_x_shift: "euler_x (fadd x h) h j = euler_x x h (Suc j)"
  by (simp only: euler_x_def funpow_Suc_right o_apply)

lemma euler_y_shift: "euler_y k (fadd y (fmul h (fmul k y))) h j = euler_y k y h (Suc j)"
  by (simp only: euler_y_def funpow_Suc_right o_apply)

lemma euler_loop_closed:
  "euler_loop k h is s =
     \<lparr>x_values = x_values s @ map (\<lambda>j. euler_x (x_current s) h (Suc j)) [0 ..< length is],
      y_values = y_values s @ map (\<lambda>j. euler_y k (y_current s) h (Suc j)) [0 ..< length is],
      slopes = slopes s @ map (\<lambda>j. fmul k (euler_y k (y_current s) h j)) [0 ..< length is],
      x_current = euler_x (x_current s) h (length is),
      y_current = euler_y k (y_current s) h (length is)\<rparr>"
proof (induction "is" arbitrary: s)
  case Nil
  show ?case by simp
next
  case (Cons i "is")
  show ?case
    unfolding euler_loop.simps Cons.IH
    by (simp add: euler_body_def Let_def euler_x_shift euler_y_shift upt_0_Suc_shift comp_def
        del: upt_Suc)
      (simp add: euler_x_Suc euler_y_Suc)
qed

lemma euler_loop_init:
  "euler_loop k h is (euler_init x0 y0) =
     \<lparr>x_values = map (euler_x x0 h) [0 ..< Suc (length is)],
      y_values = map (euler_y k y0 h) [0 ..< Suc (length is)],
      slopes = map (\<lambda>j. fmul k (euler_y k y0 h j)) [0 ..< length is],
      x_current = euler_x x0 h (length is),
      y_current = euler_y k y0 h (length is)\<rparr>"
  unfolding euler_loop_closed
  by (simp add: euler_init_def upt_0_Suc_shift comp_def del: upt_Suc)

lemma make_row_loop:
  assumes "i < n"
  shows "make_row (euler_loop k h [0 ..< n] (euler_init x0 y0)) i = Inr (euler_row k x0 y0 h i)"
  using assms unfolding euler_loop_init
  by (simp add: make_row_def py_index_def euler_row_def del: upt_Suc)

lemma df_loop_rows:
  assumes "\<forall>i \<in> set is. make_row s i = Inr (r i)"
  shows "df_loop s is df_data = Inr (df_data @ map r is)"
  using assms by (induction "is" arbitrary: df_data) simp_all

lemma eulers_method_closed:
  assumes "fdiv (fsub x_target x0) h = Inr q" "fint q = Inr num_steps"
  shows "eulers_method k x0 y0 x_target h =
           Inr (map (euler_row k x0 y0 h) [0 ..< nat num_steps],
                map (euler_x x0 h) [0 ..< Suc (nat num_steps)],
                map (euler_y k y0 h) [0 ..< Suc (nat num_steps)])"
proof -
  let ?n = "nat num_steps"
  let ?s = "euler_loop k h [0 ..< ?n] (euler_init x0 y0)"
  have "df_loop ?s [0 ..< ?n] [] = Inr ([] @ map (euler_row k x0 y0 h) [0 ..< ?n])"
    by (rule df_loop_rows) (simp add: make_row_loop)
  moreover have "x_values ?s = map (euler_x x0 h) [0 ..< Suc ?n]"
    and "y_values ?s = map (euler_y k y0 h) [0 ..< Suc ?n]"
    by (simp_all add: euler_loop_init del: upt_Suc)
  ultimately show ?thesis
    using assms by (simp add: eulers_method_def py_range_def Let_def del: upt_Suc)
qed

lemma eulers_method_raises:
  "fdiv (fsub x_target x0) h = Inl e \<Longrightarrow> eulers_method k x0 y0 x_target h = Inl e"
  "fdiv (fsub x_target x0) h = Inr q \<Longrightarrow> fint q = Inl e \<Longrightarrow> eulers_method k x0 y0 x_target h = Inl e"
  by (simp_all add: eulers_method_def)

lemma last_map_upt_Suc: "last (map f [0 ..< Suc n]) = f n"
  by simp

section \<open>The error metrics\<close>

lemma rne_int: "\<bar>m\<bar> < 2 ^ 53 \<Longrightarrow> rne (of_int m) = Fin (of_int m)"
  using double_int [of m] by (simp add: double_def)

lemma rne_numeral: "numeral n < (2 ^ 53 :: int) \<Longrightarrow> rne (numeral n) = Fin (numeral n)"
  using rne_int [of "numeral n"] by simp


lemma rne_one [simp]: "rne 1 = Fin 1"
  using rne_int [of 1] by simp

lemma exp_overflow:
  assumes "1024 \<le> n"
  shows "rne (exp (real n)) = PInf"
proof (rule rne_overflow)
  have "(2::real) ^ 1024 \<le> 2 ^ n"
    using assms by (intro power_increasing) simp_all
  also have "\<dots> \<le> exp 1 ^ n"
    using exp_ge_add_one_self [of 1] by (intro power_mono) simp_all
  also have "\<dots> = exp (real n)"
    using exp_of_nat_mult [of n "1::real"] by simp
  finally show "2 ^ 1024 \<le> exp (real n)" .
qed

lemma fsub_Fin: "fsub (Fin a) (Fin b) = rne (a - b)"
  by (simp add: fsub_def)

lemma fmul_Fin: "fmul (Fin a) (Fin b) = rne (a * b)"
  by (simp add: fmul_def)

lemma fdiv_Fin: "b \<noteq> 0 \<Longrightarrow> fdiv (Fin a) (Fin b) = Inr (rne (a / b))"
  by (simp add: fdiv_def)



section \<open>Validation, overflow and the unchecked core\<close>


lemma fle_0_cases:
  assumes "fle (Fin 0) v"
  obtains a where "v = Fin a" "0 \<le> a" | "v = PInf"
  using assms by (cases v) simp_all


text \<open>The quotient of a valid input is a binary64 number between 0 and 10000.\<close>

lemma valid_quotient:
  assumes "valid_input x0 x_target h"
  shows "\<exists>q. fdiv (fsub (Fin x_target) (Fin x0)) (Fin h) = Inr (Fin q) \<and> 0 \<le> q \<and> q \<le> 10000"
proof -
  from assms have h: "0 < h" and lt: "x0 < x_target"
    and v: "case fdiv (fsub (Fin x_target) (Fin x0)) (Fin h) of
              Inl e \<Rightarrow> False | Inr q \<Rightarrow> \<not> flt (Fin 10000) q"
    by (simp_all add: valid_input_def)
  have "fle (Fin 0) (rne (x_target - x0))"
    using lt by (intro rne_nonneg) simp
  then show ?thesis
  proof (cases rule: fle_0_cases)
    case (1 d)
    have "fle (Fin 0) (rne (d / h))"
      using 1(2) h by (intro rne_nonneg) simp
    then show ?thesis
    proof (cases rule: fle_0_cases)
      case (1 q)
      with \<open>rne (x_target - x0) = Fin d\<close> v h show ?thesis
        by (simp add: fsub_Fin fdiv_Fin)
    next
      case 2
      with \<open>rne (x_target - x0) = Fin d\<close> v h show ?thesis
        by (simp add: fsub_Fin fdiv_Fin)
    qed
  next
    case 2
    with v h show ?thesis
      by (simp add: fsub_Fin fdiv_def)
  qed
qed

text \<open>
  Claim C3, as the claim states it, fails: it asks for \<open>InvalidRange\<close> exactly when
  \<open>x_target \<le> x0\<close>, but \<open>main\<close> tests the step size first. With \<open>h = 0\<close> and
  \<open>x_target = x0 = 0\<close> the failure is \<open>InvalidStepSize\<close>, not \<open>InvalidRange\<close>.
\<close>

theorem main_failures_overlap:
  "\<not> (main (Fin 1) (Fin 0) (Fin 1) (Fin 0) (Fin 0) [] = Inl InvalidRange \<longleftrightarrow> (0::real) \<le> 0)"
  by (simp add: main_def)

text \<open>
  Claim C3, amended. The three checks run in order and the first that applies decides:
  \<open>InvalidStepSize\<close> exactly when \<open>h \<le> 0\<close>; \<open>InvalidRange\<close> exactly when
  \<open>h > 0\<close> and \<open>x_target \<le> x0\<close>; \<open>StepCountExceeded\<close> exactly when \<open>h > 0\<close>,
  \<open>x_target > x0\<close> and the quotient \<open>(x_target - x0) / h\<close>, as the program computes it in
  binary64 arithmetic, is greater than 10000. No exception escapes the checks, the three
  kinds are pairwise distinct, and a run that ends in one of them returns no report.
  (Other failures exist: an exception raised in the \<open>try\<close> block is reported as
  \<open>CalculationError\<close>.)
\<close>

theorem main_failures:
  "(main k (Fin x0) y0 (Fin x_target) (Fin h) x_analytical = Inl InvalidStepSize \<longleftrightarrow> h \<le> 0)
   \<and> (main k (Fin x0) y0 (Fin x_target) (Fin h) x_analytical = Inl InvalidRange
        \<longleftrightarrow> 0 < h \<and> x_target \<le> x0)
   \<and> (main k (Fin x0) y0 (Fin x_target) (Fin h) x_analytical = Inl StepCountExceeded
        \<longleftrightarrow> 0 < h \<and> x0 < x_target
            \<and> (\<exists>q. fdiv (fsub (Fin x_target) (Fin x0)) (Fin h) = Inr q \<and> flt (Fin 10000) q))
   \<and> (\<forall>e. main k (Fin x0) y0 (Fin x_target) (Fin h) x_analytical \<noteq> Inl (Uncaught e))
   \<and> InvalidStepSize \<noteq> InvalidRange \<and> InvalidStepSize \<noteq> StepCountExceeded
   \<and> InvalidRange \<noteq> StepCountExceeded
   \<and> (main k (Fin x0) y0 (Fin x_target) (Fin h) x_analytical
          \<in> {Inl InvalidStepSize, Inl InvalidRange, Inl StepCountExceeded}
        \<longrightarrow> (\<forall>r. main k (Fin x0) y0 (Fin x_target) (Fin h) x_analytical \<noteq> Inr r))"
proof (cases "h \<le> 0")
  case True
  then show ?thesis by (simp add: main_def)
next
  case False
  then have h: "h \<noteq> 0" "0 < h" by simp_all
  obtain q where q: "fdiv (fsub (Fin x_target) (Fin x0)) (Fin h) = Inr q"
    using h by (simp add: fdiv_def)
  show ?thesis
    using h q by (auto simp add: main_def split: sum.splits)
qed

theorem main_failures_witness:
  "main (Fin 1) (Fin 0) (Fin 1) (Fin 1) (Fin 0) [] = Inl InvalidStepSize
   \<and> main (Fin 1) (Fin 2) (Fin 1) (Fin 2) (Fin (1 / 2)) [] = Inl InvalidRange
   \<and> fdiv (fsub (Fin 1000000000) (Fin 0)) (Fin 1) = Inr (Fin 1000000000)
   \<and> main (Fin 1) (Fin 0) (Fin 1) (Fin 1000000000) (Fin 1) [] = Inl StepCountExceeded"
proof -
  have q: "fdiv (fsub (Fin 1000000000) (Fin 0)) (Fin 1) = Inr (Fin 1000000000)"
    by (simp add: fsub_Fin fdiv_Fin rne_numeral)
  show ?thesis
    using main_failures [of "Fin 1" 0 "Fin 1" 1 0 "[]"]
      main_failures [of "Fin 1" 2 "Fin 1" 2 "1 / 2" "[]"]
      main_failures [of "Fin 1" 0 "Fin 1" 1000000000 1 "[]"] q
    by simp
qed

text \<open>
  Claim C5 fails on the code. For \<open>k = 1024\<close>, \<open>x0 = 0\<close>, \<open>y0 = 1\<close>, \<open>x = 1\<close> the
  argument \<open>k * (x - x0)\<close> is 1024, \<open>math.exp\<close> raises \<open>OverflowError\<close>, and so does
  \<open>analytical_solution\<close>: no infinity is returned.
\<close>

theorem analytical_solution_overflow:
  "analytical_solution (Fin 1024) (Fin 0) (Fin 1) (Fin 1) = Inl OverflowError"
proof -
  have "rne (exp (real 1024)) = PInf" by (rule exp_overflow) simp
  then show ?thesis
    by (simp add: analytical_solution_def fsub_Fin fmul_Fin rne_numeral)
qed




text \<open>
  Claim C9, as the claim states it, fails on the code: the error of the program does not
  tend to 0 with the step size. For the smallest positive binary64 number
  \<open>h = 2 ^ -1074\<close> (and \<open>k = 1\<close>, \<open>x0 = 0\<close>, \<open>y0 = 1\<close>, \<open>x_target = 1\<close>) the quotient
  \<open>1 / h\<close> overflows to infinity, \<open>int\<close> raises \<open>OverflowError\<close> and no error value is
  computed at all.
\<close>

theorem calculate_smallest_step:
  "calculate (Fin 1) (Fin 0) (Fin 1) (Fin 1) (Fin (1 / 2 ^ 1074)) x_analytical = Inl OverflowError"
proof -
  have "rne (2 ^ 1074) = PInf"
    by (rule rne_overflow) (intro power_increasing; simp)
  then have "fdiv (fsub (Fin 1) (Fin 0)) (Fin (1 / 2 ^ 1074)) = Inr PInf"
    by (simp add: fsub_Fin fdiv_Fin)
  then have "eulers_method (Fin 1) (Fin 0) (Fin 1) (Fin 1) (Fin (1 / 2 ^ 1074)) = Inl OverflowError"
    by (rule eulers_method_raises(2)) simp
  then show ?thesis by (simp add: calculate_def)
qed

section \<open>Where the exponential overflows\<close>









section \<open>The analytical solution\<close>

lemma double_0 [simp]: "double 0" by (simp add: double_def)
lemma double_1 [simp]: "double 1" by (simp add: double_def)


lemma double_half: "double (1 / 2)"
  by (rule double_down [of _ 1 1]) simp_all

lemma rne_half: "rne (1 / 2) = Fin (1 / 2)"
  using double_half by (simp add: double_def)




section \<open>Step count and recurrence\<close>

lemma valid_half: "valid_input 0 1 (1 / 2)"
  by (simp add: valid_input_def double_half fsub_Fin fdiv_Fin rne_numeral)

lemma quotient_half: "fdiv (fsub (Fin 1) (Fin 0)) (Fin (1 / 2)) = Inr (Fin 2)"
  by (simp add: fsub_Fin fdiv_Fin rne_numeral)

text \<open>
  Claim C2, amended. On every valid input the quotient \<open>(x_target - x0) / h\<close> that the
  program computes in binary64 arithmetic is a number \<open>q \<ge> 0\<close>, its truncation
  \<open>int(q)\<close> is its floor, and \<open>eulers_method\<close> returns a table of exactly that many
  rows and a trajectory of one more point.
\<close>

theorem eulers_method_lengths:
  assumes "valid_input x0 x_target h"
  shows "\<exists>q df_data xs ys.
       fdiv (fsub (Fin x_target) (Fin x0)) (Fin h) = Inr (Fin q) \<and> 0 \<le> q
     \<and> fint (Fin q) = Inr \<lfloor>q\<rfloor>
     \<and> eulers_method k (Fin x0) y0 (Fin x_target) (Fin h) = Inr (df_data, xs, ys)
     \<and> int (length df_data) = \<lfloor>q\<rfloor>
     \<and> int (length xs) = \<lfloor>q\<rfloor> + 1
     \<and> int (length ys) = \<lfloor>q\<rfloor> + 1"
proof -
  from valid_quotient [OF assms] obtain q
    where q: "fdiv (fsub (Fin x_target) (Fin x0)) (Fin h) = Inr (Fin q)" and q0: "0 \<le> q"
    by blast
  have n: "fint (Fin q) = Inr \<lfloor>q\<rfloor>" using q0 by simp
  have f: "0 \<le> \<lfloor>q\<rfloor>" using q0 by simp
  show ?thesis
    using q q0 n f eulers_method_closed [OF q n, of k y0] by simp
qed

theorem eulers_method_lengths_witness:
  "valid_input 0 1 (1 / 2) \<and>
   (\<exists>df_data xs ys. fdiv (fsub (Fin 1) (Fin 0)) (Fin (1 / 2)) = Inr (Fin 2)
     \<and> eulers_method (Fin 3) (Fin 0) (Fin 1) (Fin 1) (Fin (1 / 2)) = Inr (df_data, xs, ys)
     \<and> length df_data = 2 \<and> length xs = 3 \<and> length ys = 3)"
proof -
  from eulers_method_lengths [OF valid_half, of "Fin 3" "Fin 1"] obtain q df_data xs ys
    where r: "fdiv (fsub (Fin 1) (Fin 0)) (Fin (1 / 2)) = Inr (Fin q)"
      "eulers_method (Fin 3) (Fin 0) (Fin 1) (Fin 1) (Fin (1 / 2)) = Inr (df_data, xs, ys)"
      "int (length df_data) = \<lfloor>q\<rfloor>" "int (length xs) = \<lfloor>q\<rfloor> + 1" "int (length ys) = \<lfloor>q\<rfloor> + 1"
    by blast
  from r(1) quotient_half have "q = 2" by simp
  with r valid_half quotient_half show ?thesis by auto
qed

text \<open>The step 0.1 as a binary64 number, and the quotient 1 / 0.1.\<close>

lemma quotient_tenth:
  "fdiv (fsub (Fin 1) (Fin 0)) (Fin (3602879701896397 / 36028797018963968)) = Inr (Fin 10)"
proof -
  have "rne (1 / (3602879701896397 / 36028797018963968)) = Fin 10"
    using rne_down [of 49 "1 / (3602879701896397 / 36028797018963968)" 5629499534213120] by simp
  then show ?thesis by (simp add: fsub_Fin fdiv_Fin)
qed

text \<open>
  Claim C2, as the claim states it, fails: the number of steps is not the floor of the real
  quotient. For \<open>x0 = 0\<close>, \<open>x_target = 1\<close> and the binary64 number nearest to 0.1
  (which is slightly greater than 0.1) the real quotient is below 10 and its floor is 9,
  but the quotient the program computes rounds to 10.0 and the table has 10 rows.
\<close>

theorem eulers_method_lengths_rounded:
  "length (fst (projr (eulers_method (Fin 1) (Fin 0) (Fin 1) (Fin 1)
      (Fin (3602879701896397 / 36028797018963968))))) = 10
   \<and> \<lfloor>(1 - 0) / (3602879701896397 / 36028797018963968 :: real)\<rfloor> = 9"
proof -
  have n: "fint (Fin 10) = Inr 10" by simp
  show ?thesis
    unfolding eulers_method_closed [OF quotient_tenth n] by (simp add: floor_eq_iff)
qed









end
